theory Spec2Isabelle
  imports Main "HOL-Library.Signed_Division"
begin

section \<open>The GPIO line manager (gpio-manager/gpioman.c)\<close>

text \<open>
  A shallow embedding of the per-line pulse generator of \<^verbatim>\<open>gpioman.c\<close>: the line record
  \<^verbatim>\<open>struct gpio_line_state\<close>, the two timer callbacks, the sysfs read and write handlers,
  \<^verbatim>\<open>set_gls_frequency\<close> and the kobject release path.

  The file is compiled in one of two configurations, chosen by \<^verbatim>\<open>USE_HR_TIMERS\<close>; the
  low-resolution one also depends on the kernel constant \<^verbatim>\<open>HZ\<close>. Both are fields of a
  configuration that every function takes.
\<close>

subsection \<open>Constants and C arithmetic\<close>

definition LOGIC_HIGH :: int where "LOGIC_HIGH = 1"
definition LOGIC_LOW :: int where "LOGIC_LOW = 0"
definition MS_PER_SEC :: int where "MS_PER_SEC = 1000"
definition US_PER_SEC :: int where "US_PER_SEC = 1000000"

text \<open>The errno values of \<^verbatim>\<open>errno-base.h\<close>.\<close>

definition EINVAL :: int where "EINVAL = 22"
definition ERANGE :: int where "ERANGE = 34"

record config =
  USE_HR_TIMERS :: bool
  KERNEL_HERTZ :: int

text \<open>
  Every field of the line record is a C \<^verbatim>\<open>int\<close>. The kernel is built with
  \<^verbatim>\<open>-fno-strict-overflow\<close>, so \<^verbatim>\<open>counter++\<close> and
  \<^verbatim>\<open>on_cycles + off_cycles\<close> wrap around in 32-bit two's complement.
\<close>

definition int_wrap :: "int \<Rightarrow> int" where
  "int_wrap x = (x + 2 ^ 31) mod 2 ^ 32 - 2 ^ 31"

subsection \<open>The line record and its effects\<close>

text \<open>
  What the driver does to the outside world is recorded as events, in the order in which the
  calls are made: \<^verbatim>\<open>gpiod_set_value\<close>, arming the timer (\<^verbatim>\<open>hrtimer_start\<close>,
  \<^verbatim>\<open>hrtimer_forward_now\<close> with \<^verbatim>\<open>HRTIMER_RESTART\<close>, or \<^verbatim>\<open>mod_timer\<close>; the argument is
  the delay, in microseconds with high-resolution timers and in milliseconds otherwise),
  cancelling it (\<^verbatim>\<open>hrtimer_cancel\<close>, \<^verbatim>\<open>del_timer\<close>, \<^verbatim>\<open>del_timer_sync\<close>),
  \<^verbatim>\<open>gpiod_put\<close>, \<^verbatim>\<open>list_del\<close> and \<^verbatim>\<open>kfree\<close>.
\<close>

datatype event =
    GpioSetValue int
  | TimerArm int
  | TimerCancel
  | GpioPut
  | ListDel
  | Kfree

text \<open>
  A run of the kernel stops at \<^verbatim>\<open>BUG_ON\<close>, at an integer division by zero, and (in the
  model) at the use of a value that was never assigned or of an object that was freed.
\<close>

datatype fault = BUG | DivideError | Uninitialised | UseAfterFree

text \<open>
  The record has the sysfs-controlled fields of \<^verbatim>\<open>struct gpio_line_state\<close> as they are
  declared. The objects it embeds or points to are represented by what the driver can do to
  them: \<open>kref\<close> is the reference count of \<^verbatim>\<open>kobj\<close>, \<open>timer_pending\<close> says whether
  \<^verbatim>\<open>timer\<close> is armed, \<open>gpio_value\<close> is the logic value last asserted on
  \<^verbatim>\<open>gpio_descriptor\<close>, \<open>gpio_held\<close> says whether the descriptor is still held,
  \<open>on_list\<close> whether \<^verbatim>\<open>list\<close> is linked into the global list, and \<open>freed\<close> whether the
  record was passed to \<^verbatim>\<open>kfree\<close>. \<open>trace\<close> is the history of events.
\<close>

record gpio_line_state =
  devname :: string
  pulse_period :: int
  on_cycles :: int
  off_cycles :: int
  counter :: int
  pin_ctl_enabled :: int
  pin_logic_level :: int
  kref :: nat
  timer_pending :: bool
  gpio_value :: int
  gpio_held :: bool
  on_list :: bool
  freed :: bool
  trace :: "event list"

definition gpiod_set_value :: "gpio_line_state \<Rightarrow> int \<Rightarrow> gpio_line_state" where
  "gpiod_set_value gls v = gls\<lparr>gpio_value := v, trace := trace gls @ [GpioSetValue v]\<rparr>"

definition timer_arm :: "gpio_line_state \<Rightarrow> int \<Rightarrow> gpio_line_state" where
  "timer_arm gls d = gls\<lparr>timer_pending := True, trace := trace gls @ [TimerArm d]\<rparr>"

definition timer_cancel :: "gpio_line_state \<Rightarrow> gpio_line_state" where
  "timer_cancel gls = gls\<lparr>timer_pending := False, trace := trace gls @ [TimerCancel]\<rparr>"

subsection \<open>The timer callbacks\<close>

text \<open>
  Lines 94-115 of \<^verbatim>\<open>hr_interval_cb\<close> and lines 141-157 of \<^verbatim>\<open>lr_interval_cb\<close> are the
  same statement. \<^verbatim>\<open>counter++ == x\<close> compares the old value and then increments.
\<close>

definition duty_cycle :: "gpio_line_state \<Rightarrow> fault + gpio_line_state" where
  "duty_cycle gls =
    (if pin_logic_level gls = LOGIC_HIGH then
       (let c = counter gls; gls1 = gls\<lparr>counter := int_wrap (c + 1)\<rparr> in
        if c = on_cycles gls then
          (if off_cycles gls > 0 then Inr (gls1\<lparr>pin_logic_level := LOGIC_LOW\<rparr>)
           else Inr (gls1\<lparr>counter := 0\<rparr>))
        else Inr gls1)
     else if pin_logic_level gls = LOGIC_LOW then
       (if off_cycles gls = 0 then Inl BUG
        else
          (let c = counter gls; gls1 = gls\<lparr>counter := int_wrap (c + 1)\<rparr> in
           if c = int_wrap (on_cycles gls + off_cycles gls) then
             Inr (gls1\<lparr>pin_logic_level := LOGIC_HIGH, counter := 1\<rparr>)
           else Inr gls1))
     else Inr gls)"

datatype hrtimer_restart = HRTIMER_NORESTART | HRTIMER_RESTART

definition hr_interval_cb :: "gpio_line_state \<Rightarrow> fault + (gpio_line_state \<times> hrtimer_restart)" where
  "hr_interval_cb gls =
    (if pin_ctl_enabled gls = 0 then Inr (gls, HRTIMER_NORESTART)
     else
       (case duty_cycle gls of
          Inl f \<Rightarrow> Inl f
        | Inr gls1 \<Rightarrow>
            (let gls2 = gpiod_set_value gls1 (pin_logic_level gls1);
                 gls3 = timer_arm gls2 (pulse_period gls2)
             in Inr (gls3, HRTIMER_RESTART))))"

definition lr_interval_cb :: "gpio_line_state \<Rightarrow> fault + gpio_line_state" where
  "lr_interval_cb gls =
    (if pin_ctl_enabled gls = 0 then Inr gls
     else
       (let gls1 = timer_arm gls (pulse_period gls) in
        case duty_cycle gls1 of
          Inl f \<Rightarrow> Inl f
        | Inr gls2 \<Rightarrow> Inr (gpiod_set_value gls2 (pin_logic_level gls2))))"

text \<open>
  The timer core, as far as the driver relies on it: a timer that is not pending does not
  fire; a pending one is taken off the queue and its callback runs. A high-resolution timer
  is queued again when the callback returns \<^verbatim>\<open>HRTIMER_RESTART\<close> (the callback has then
  moved the expiry forward), a low-resolution one when the callback calls \<^verbatim>\<open>mod_timer\<close>.
\<close>

definition timer_fires :: "config \<Rightarrow> gpio_line_state \<Rightarrow> fault + gpio_line_state" where
  "timer_fires cfg gls =
    (if \<not> timer_pending gls then Inr gls
     else if USE_HR_TIMERS cfg then
       (case hr_interval_cb (gls\<lparr>timer_pending := False\<rparr>) of
          Inl f \<Rightarrow> Inl f
        | Inr (gls1, r) \<Rightarrow> Inr (gls1\<lparr>timer_pending := (r = HRTIMER_RESTART)\<rparr>))
     else lr_interval_cb (gls\<lparr>timer_pending := False\<rparr>))"

subsection \<open>Reading an attribute\<close>

text \<open>
  \<^verbatim>\<open>read_sysfs_attribute\<close> prints \<^verbatim>\<open>var\<close> with \<^verbatim>\<open>"%u\n"\<close>; the model returns \<^verbatim>\<open>var\<close>.
  The division of the \<^verbatim>\<open>freq\<close> branch has no guard: with \<^verbatim>\<open>pulse_period == 0\<close> it
  divides by zero. A name that matches no branch leaves \<^verbatim>\<open>var\<close> unassigned. C division
  truncates towards zero (\<open>sdiv\<close>).
\<close>

definition read_sysfs_attribute :: "config \<Rightarrow> gpio_line_state \<Rightarrow> string \<Rightarrow> fault + int" where
  "read_sysfs_attribute cfg gls attribute =
    (if attribute = ''status'' then Inr (pin_ctl_enabled gls)
     else if attribute = ''on_cycles'' then Inr (on_cycles gls)
     else if attribute = ''off_cycles'' then Inr (off_cycles gls)
     else if attribute = ''freq'' then
       (if pulse_period gls = 0 then Inl DivideError
        else if USE_HR_TIMERS cfg then Inr (US_PER_SEC sdiv pulse_period gls)
        else Inr (MS_PER_SEC sdiv pulse_period gls))
     else Inl Uninitialised)"

subsection \<open>Setting the frequency\<close>

definition set_gls_frequency :: "config \<Rightarrow> gpio_line_state \<Rightarrow> int \<Rightarrow> gpio_line_state" where
  "set_gls_frequency cfg gls freq0 =
    (let freq = (if \<not> USE_HR_TIMERS cfg \<and> freq0 > KERNEL_HERTZ cfg
                 then KERNEL_HERTZ cfg else freq0);
         gls1 = gls\<lparr>pulse_period :=
                  (if freq > 0
                   then (if USE_HR_TIMERS cfg then US_PER_SEC else MS_PER_SEC) sdiv freq
                   else 0)\<rparr>
     in if pin_ctl_enabled gls1 \<noteq> 0 then
          (let gls2 = gpiod_set_value gls1 LOGIC_HIGH in
           if freq > 0 then
             timer_arm gls2 (if USE_HR_TIMERS cfg then 0 else pulse_period gls2)
           else timer_cancel gls2)
        else gls1)"

subsection \<open>Writing an attribute\<close>

text \<open>
  \<^verbatim>\<open>kstrtoint\<close> is the kernel's parser (\<^verbatim>\<open>lib/kstrtox.c\<close>), not part of this driver. It is
  modelled from its contract for base 10: an optional sign (\<^verbatim>\<open>-\<close> or \<^verbatim>\<open>+\<close>), at least one
  decimal digit, an optional single newline, then the end of the string; the value must fit
  an \<^verbatim>\<open>int\<close>. \<open>Inl rc\<close> is the negative return value, with the result left unassigned;
  \<open>Inr v\<close> is the return value 0 with the result \<open>v\<close>.
\<close>

definition digit_of :: "char \<Rightarrow> nat option" where
  "digit_of c =
    (let n = (of_char c :: nat) in if 48 \<le> n \<and> n \<le> 57 then Some (n - 48) else None)"

fun parse_digits :: "string \<Rightarrow> nat \<Rightarrow> nat \<times> string" where
  "parse_digits [] acc = (acc, [])"
| "parse_digits (c # cs) acc =
    (case digit_of c of
       None \<Rightarrow> (acc, c # cs)
     | Some d \<Rightarrow> parse_digits cs (acc * 10 + d))"

definition kstrtoull :: "string \<Rightarrow> int + nat" where
  "kstrtoull s =
    (case parse_digits s 0 of (v, rest) \<Rightarrow>
       if v \<ge> 2 ^ 64 then Inl (- ERANGE)
       else if length rest = length s then Inl (- EINVAL)
       else
         (let rest1 = (if rest \<noteq> [] \<and> hd rest = CHR 0x0A then tl rest else rest)
          in if rest1 \<noteq> [] then Inl (- EINVAL) else Inr v))"

definition kstrtoint :: "string \<Rightarrow> int + int" where
  "kstrtoint s =
    (if s \<noteq> [] \<and> hd s = CHR ''-'' then
       (case kstrtoull (tl s) of
          Inl rc \<Rightarrow> Inl rc
        | Inr v \<Rightarrow> if - int v < - (2 ^ 31) then Inl (- ERANGE) else Inr (- int v))
     else
       (case kstrtoull (if s \<noteq> [] \<and> hd s = CHR ''+'' then tl s else s) of
          Inl rc \<Rightarrow> Inl rc
        | Inr v \<Rightarrow> if int v \<ge> 2 ^ 31 then Inl (- ERANGE) else Inr (int v)))"

text \<open>
  \<^verbatim>\<open>write_sysfs_attribute\<close> returns the new record and its \<^verbatim>\<open>ssize_t\<close> result: the
  constant \<^verbatim>\<open>EINVAL\<close> (as written in the source, without a sign) when the value does not
  parse or is negative, and \<^verbatim>\<open>count\<close> otherwise. The \<^verbatim>\<open>switch\<close> on a \<^verbatim>\<open>status\<close> value has
  the cases 0 and 1 and no default.
\<close>

definition write_sysfs_attribute ::
  "config \<Rightarrow> gpio_line_state \<Rightarrow> string \<Rightarrow> string \<Rightarrow> nat \<Rightarrow> gpio_line_state \<times> int" where
  "write_sysfs_attribute cfg gls attribute buf count =
    (case kstrtoint buf of
       Inl rc \<Rightarrow> (gls, EINVAL)
     | Inr var \<Rightarrow>
         if var < 0 then (gls, EINVAL)
         else
           (let gls1 = gls\<lparr>counter := 0\<rparr> in
            (if attribute = ''status'' then
               (if var = LOGIC_LOW then
                  (let gls2 = timer_cancel gls1;
                       gls3 = gls2\<lparr>pin_ctl_enabled := 0, pin_logic_level := LOGIC_LOW\<rparr>
                   in gpiod_set_value gls3 LOGIC_LOW)
                else if var = LOGIC_HIGH then
                  (let gls2 = gpiod_set_value (gls1\<lparr>pin_logic_level := LOGIC_HIGH\<rparr>) LOGIC_HIGH;
                       gls3 = (if pulse_period gls2 > 0
                               then timer_arm gls2
                                      (if USE_HR_TIMERS cfg then 0 else pulse_period gls2)
                               else gls2)
                   in gls3\<lparr>pin_ctl_enabled := 1\<rparr>)
                else gls1)
             else if attribute = ''freq'' then set_gls_frequency cfg gls1 var
             else if attribute = ''on_cycles'' then gls1\<lparr>on_cycles := var\<rparr>
             else if attribute = ''off_cycles'' then gls1\<lparr>off_cycles := var\<rparr>
             else gls1,
             int count)))"

subsection \<open>Release and removal\<close>

definition gpio_line_state_release_func :: "config \<Rightarrow> gpio_line_state \<Rightarrow> gpio_line_state" where
  "gpio_line_state_release_func cfg gls =
    (let gls1 = timer_cancel gls;
         gls2 = gpiod_set_value gls1 LOGIC_LOW;
         gls3 = gls2\<lparr>gpio_held := False, trace := trace gls2 @ [GpioPut]\<rparr>;
         gls4 = gls3\<lparr>on_list := False, trace := trace gls3 @ [ListDel]\<rparr>
     in gls4\<lparr>freed := True, trace := trace gls4 @ [Kfree]\<rparr>)"

text \<open>
  Modelled from the spec: \<^verbatim>\<open>kobject_put\<close>, the kernel's reference count of the embedded
  \<^verbatim>\<open>kobj\<close>, is not part of the source file. The spec's \<^verbatim>\<open>release(handle)\<close> "decrements
  refcount; at zero" runs the teardown, and the comment above
  \<^verbatim>\<open>gpio_line_state_release_func\<close> says that the function is "called by the kobject
  subsystem when the reference count for the object (as decremented by kobject_put()) gets
  to 0". A put on a record that was freed, or whose count is already 0, is a fault.
\<close>

definition kobject_put :: "config \<Rightarrow> gpio_line_state \<Rightarrow> fault + gpio_line_state" where
  "kobject_put cfg gls =
    (if freed gls \<or> kref gls = 0 then Inl UseAfterFree
     else
       (let gls1 = gls\<lparr>kref := kref gls - 1\<rparr> in
        if kref gls1 = 0 then Inr (gpio_line_state_release_func cfg gls1) else Inr gls1))"

definition rm_func :: "config \<Rightarrow> gpio_line_state \<Rightarrow> fault + gpio_line_state" where
  "rm_func cfg gls = kobject_put cfg gls"

fun kobject_puts :: "config \<Rightarrow> nat \<Rightarrow> gpio_line_state \<Rightarrow> fault + gpio_line_state" where
  "kobject_puts cfg 0 gls = Inr gls"
| "kobject_puts cfg (Suc n) gls =
    (case kobject_put cfg gls of Inl f \<Rightarrow> Inl f | Inr gls1 \<Rightarrow> kobject_puts cfg n gls1)"

subsection \<open>Creation\<close>

text \<open>
  \<^verbatim>\<open>gpio_probe_func\<close> obtains the descriptor with \<^verbatim>\<open>GPIOD_OUT_LOW\<close> and allocates the
  record with \<^verbatim>\<open>kzalloc\<close>, so every field that \<^verbatim>\<open>initialize_gls\<close> does not assign is
  zero. \<open>rc\<close> is the result of \<^verbatim>\<open>kobject_init_and_add\<close>, which sets the reference count
  to 1; when it fails, the reference is dropped at once.
\<close>

definition initialize_gls :: "config \<Rightarrow> string \<Rightarrow> int \<Rightarrow> fault + gpio_line_state" where
  "initialize_gls cfg device_name rc =
    (let gls = \<lparr>devname = device_name, pulse_period = 0, on_cycles = 1, off_cycles = 1,
                counter = 0, pin_ctl_enabled = 0, pin_logic_level = LOGIC_LOW,
                kref = 1, timer_pending = False, gpio_value = LOGIC_LOW, gpio_held = True,
                on_list = True, freed = False, trace = []\<rparr>
     in if rc \<noteq> 0 then kobject_put cfg gls else Inr gls)"

subsection \<open>Runs\<close>

text \<open>
  The driver is entered by a write or a read of an attribute and by the timer. A run is a
  list of such entries, executed one after the other; it stops at the first fault.
\<close>

datatype action = Store string string | Show string | Timer

definition step :: "config \<Rightarrow> action \<Rightarrow> gpio_line_state \<Rightarrow> fault + gpio_line_state" where
  "step cfg a gls =
    (case a of
       Store attribute buf \<Rightarrow> Inr (fst (write_sysfs_attribute cfg gls attribute buf (length buf)))
     | Show attribute \<Rightarrow>
         (case read_sysfs_attribute cfg gls attribute of Inl f \<Rightarrow> Inl f | Inr v \<Rightarrow> Inr gls)
     | Timer \<Rightarrow> timer_fires cfg gls)"

fun run :: "config \<Rightarrow> action list \<Rightarrow> gpio_line_state \<Rightarrow> fault + gpio_line_state" where
  "run cfg [] gls = Inr gls"
| "run cfg (a # as) gls =
    (case step cfg a gls of Inl f \<Rightarrow> Inl f | Inr gls1 \<Rightarrow> run cfg as gls1)"

definition hr_config :: config where
  "hr_config = \<lparr>USE_HR_TIMERS = True, KERNEL_HERTZ = 250\<rparr>"

definition lr_config :: config where
  "lr_config = \<lparr>USE_HR_TIMERS = False, KERNEL_HERTZ = 250\<rparr>"

text \<open>
  The output levels of \<open>n\<close> successive expiries of the timer: the value on the line after
  each one.
\<close>

fun levels :: "config \<Rightarrow> nat \<Rightarrow> gpio_line_state \<Rightarrow> fault + int list" where
  "levels cfg 0 gls = Inr []"
| "levels cfg (Suc n) gls =
    (case timer_fires cfg gls of
       Inl f \<Rightarrow> Inl f
     | Inr gls1 \<Rightarrow>
         (case levels cfg n gls1 of Inl f \<Rightarrow> Inl f | Inr ls \<Rightarrow> Inr (gpio_value gls1 # ls)))"

text \<open>The record of a line named \<^verbatim>\<open>led0\<close> as \<^verbatim>\<open>initialize_gls\<close> leaves it.\<close>

definition led0 :: gpio_line_state where
  "led0 = \<lparr>devname = ''led0'', pulse_period = 0, on_cycles = 1, off_cycles = 1,
            counter = 0, pin_ctl_enabled = 0, pin_logic_level = LOGIC_LOW,
            kref = 1, timer_pending = False, gpio_value = LOGIC_LOW, gpio_held = True,
            on_list = True, freed = False, trace = []\<rparr>"

text \<open>The levels of \<open>n\<close> expiries that follow a run.\<close>

definition levels_after ::
  "config \<Rightarrow> action list \<Rightarrow> nat \<Rightarrow> gpio_line_state \<Rightarrow> fault + int list" where
  "levels_after cfg as n gls =
    (case run cfg as gls of Inl f \<Rightarrow> Inl f | Inr gls1 \<Rightarrow> levels cfg n gls1)"

text \<open>
  \<open>led0_on\<close> is the line \<^verbatim>\<open>led0\<close> enabled with a period of 1000, at the moment its timer
  has expired; \<open>led0_low\<close> is the line in its LOW phase, as the low-resolution driver leaves
  it after \<^verbatim>\<open>freq=1\<close>, \<^verbatim>\<open>status=1\<close> and two expiries.
\<close>

definition led0_on :: gpio_line_state where
  "led0_on = led0\<lparr>pulse_period := 1000, pin_ctl_enabled := 1, pin_logic_level := LOGIC_HIGH,
                   gpio_value := LOGIC_HIGH\<rparr>"

definition led0_low :: gpio_line_state where
  "led0_low = led0\<lparr>pulse_period := 1000, counter := 2, pin_ctl_enabled := 1,
                    pin_logic_level := LOGIC_LOW, timer_pending := True, gpio_value := LOGIC_LOW,
                    trace := [GpioSetValue 1, TimerArm 1000, TimerArm 1000, GpioSetValue 1,
                              TimerArm 1000, GpioSetValue 0]\<rparr>"

text \<open>
  Where a line is in its cycle: \<open>in_cycle a b j\<close> holds of an enabled line with an armed
  timer, \<open>a\<close> on cycles and \<open>b\<close> off cycles when its counter is \<open>j + 1\<close> and its level is
  HIGH for \<open>j < a\<close> and LOW otherwise; \<open>always_on a\<close> holds of such a line without off
  cycles when its level is HIGH and its counter is between 0 and \<open>a\<close>.
\<close>

definition in_cycle :: "int \<Rightarrow> int \<Rightarrow> int \<Rightarrow> gpio_line_state \<Rightarrow> bool" where
  "in_cycle a b j gls =
    (pin_ctl_enabled gls \<noteq> 0 \<and> timer_pending gls \<and> on_cycles gls = a \<and> off_cycles gls = b \<and>
     counter gls = j + 1 \<and>
     pin_logic_level gls = (if j < a then LOGIC_HIGH else LOGIC_LOW))"

definition always_on :: "int \<Rightarrow> gpio_line_state \<Rightarrow> bool" where
  "always_on a gls =
    (pin_ctl_enabled gls \<noteq> 0 \<and> timer_pending gls \<and> on_cycles gls = a \<and> off_cycles gls = 0 \<and>
     0 \<le> counter gls \<and> counter gls \<le> a \<and> pin_logic_level gls = LOGIC_HIGH)"

text \<open>
  The decimal text of an integer, as a shell writes it into an attribute file: the digits,
  after a minus sign when the integer is negative.
\<close>

definition digit_char :: "nat \<Rightarrow> char" where
  "digit_char d = ''0123456789'' ! d"

fun digits :: "nat \<Rightarrow> string" where
  "digits n = (if n < 10 then [digit_char n] else digits (n div 10) @ [digit_char (n mod 10)])"

definition decimal :: "int \<Rightarrow> string" where
  "decimal n = (if n < 0 then CHR ''-'' # digits (nat (- n)) else digits (nat n))"

text \<open>
  What the caller of a sysfs store handler makes of its result: a negative value is an error
  code, any other value is the number of bytes that were consumed. The handler follows this
  on success (it returns \<^verbatim>\<open>count\<close>), and \<^verbatim>\<open>write_sysfs_driver_attribute\<close> follows it on
  failure (it returns the negative result of \<^verbatim>\<open>kstrtoint\<close>).
\<close>

definition store_failed :: "int \<Rightarrow> bool" where
  "store_failed r = (r < 0)"

section \<open>Properties\<close>

lemma initialize_led0: "initialize_gls cfg ''led0'' 0 = Inr led0"
  by (simp add: initialize_gls_def led0_def)

text \<open>The parser on the strings used below.\<close>

lemma kstrtoint_examples:
  "kstrtoint ''0'' = Inr 0"
  "kstrtoint ''1'' = Inr 1"
  "kstrtoint ''2'' = Inr 2"
  "kstrtoint ''7'' = Inr 7"
  "kstrtoint ''-1'' = Inr (- 1)"
  "kstrtoint ''2000000'' = Inr 2000000"
  "kstrtoint ''abc'' = Inl (- EINVAL)"
  by (simp_all add: kstrtoint_def kstrtoull_def digit_of_def EINVAL_def ERANGE_def)

text \<open>What \<^verbatim>\<open>set_gls_frequency\<close> leaves alone.\<close>

lemma set_gls_frequency_fields:
  "counter (set_gls_frequency cfg gls f) = counter gls"
  "pin_logic_level (set_gls_frequency cfg gls f) = pin_logic_level gls"
  "pin_ctl_enabled (set_gls_frequency cfg gls f) = pin_ctl_enabled gls"
  "on_cycles (set_gls_frequency cfg gls f) = on_cycles gls"
  "off_cycles (set_gls_frequency cfg gls f) = off_cycles gls"
  "devname (set_gls_frequency cfg gls f) = devname gls"
  "kref (set_gls_frequency cfg gls f) = kref gls"
  "gpio_held (set_gls_frequency cfg gls f) = gpio_held gls"
  "on_list (set_gls_frequency cfg gls f) = on_list gls"
  "freed (set_gls_frequency cfg gls f) = freed gls"
  by (simp_all add: set_gls_frequency_def gpiod_set_value_def timer_arm_def timer_cancel_def
      Let_def)

subsection \<open>The parser on decimal text\<close>

declare digits.simps [simp del]

lemma digit_of_digit_char: "d < 10 \<Longrightarrow> digit_of (digit_char d) = Some d"
proof -
  assume "d < 10"
  then have "d \<in> {0, 1, 2, 3, 4, 5, 6, 7, 8, 9}" by auto
  then show ?thesis
    by (auto simp: digit_of_def digit_char_def)
qed

lemma digit_of_other:
  "digit_of CHR ''-'' = None" "digit_of CHR ''+'' = None" "digit_of (CHR 0x0A) = None"
  by (simp_all add: digit_of_def)

lemma digits_nonempty: "digits n \<noteq> []"
  by (subst digits.simps) simp

lemma hd_digits: "digit_of (hd (digits n)) \<noteq> None"
proof (induction n rule: digits.induct)
  case (1 n)
  show ?case
  proof (cases "n < 10")
    case True
    then show ?thesis by (subst digits.simps) (simp add: digit_of_digit_char)
  next
    case False
    then have "digits n = digits (n div 10) @ [digit_char (n mod 10)]"
      by (subst digits.simps) simp
    then show ?thesis using 1 False by (simp add: digits_nonempty)
  qed
qed

lemma parse_digits_digits:
  "parse_digits (digits n @ rest) acc = parse_digits rest (acc * 10 ^ length (digits n) + n)"
proof (induction n arbitrary: rest acc rule: digits.induct)
  case (1 n)
  show ?case
  proof (cases "n < 10")
    case True
    then have d: "digits n = [digit_char n]" by (subst digits.simps) simp
    show ?thesis using True by (simp add: d digit_of_digit_char)
  next
    case False
    then have d: "digits n = digits (n div 10) @ [digit_char (n mod 10)]"
      by (subst digits.simps) simp
    have "parse_digits (digits n @ rest) acc =
        parse_digits (digit_char (n mod 10) # rest)
          (acc * 10 ^ length (digits (n div 10)) + n div 10)"
      using 1 [OF False] by (simp add: d)
    also have "\<dots> = parse_digits rest
          ((acc * 10 ^ length (digits (n div 10)) + n div 10) * 10 + n mod 10)"
      by (simp add: digit_of_digit_char)
    also have "(acc * 10 ^ length (digits (n div 10)) + n div 10) * 10 + n mod 10 =
        acc * 10 ^ length (digits n) + n"
      by (simp add: d algebra_simps)
    finally show ?thesis .
  qed
qed

lemma parse_digits_plain: "parse_digits (digits n) 0 = (n, [])"
  using parse_digits_digits [of n "[]" 0] by simp

lemma parse_digits_newline: "parse_digits (digits n @ [CHR 0x0A]) 0 = (n, [CHR 0x0A])"
  using parse_digits_digits [of n "[CHR 0x0A]" 0] by (simp add: digit_of_other)

lemma kstrtoull_digits:
  "kstrtoull (digits n) = (if n \<ge> 2 ^ 64 then Inl (- ERANGE) else Inr n)"
  "kstrtoull (digits n @ [CHR 0x0A]) = (if n \<ge> 2 ^ 64 then Inl (- ERANGE) else Inr n)"
  by (simp_all add: kstrtoull_def parse_digits_plain parse_digits_newline digits_nonempty)

lemma hd_digits_not_sign: "hd (digits n) \<noteq> CHR ''-''" "hd (digits n) \<noteq> CHR ''+''"
  using hd_digits [of n] digit_of_other by metis+

lemma kstrtoint_decimal:
  assumes "buf = decimal n \<or> buf = decimal n @ [CHR 0x0A]"
  shows "kstrtoint buf =
           (if - (2 ^ 31) \<le> n \<and> n < 2 ^ 31 then Inr n else Inl (- ERANGE))"
proof (cases "n < 0")
  case True
  let ?m = "nat (- n)"
  have b: "buf \<noteq> []" "hd buf = CHR ''-''"
    "tl buf = digits ?m \<or> tl buf = digits ?m @ [CHR 0x0A]"
    using assms True by (auto simp: decimal_def)
  have k: "kstrtoull (tl buf) = (if ?m \<ge> 2 ^ 64 then Inl (- ERANGE) else Inr ?m)"
    using b(3) kstrtoull_digits by metis
  have i: "- int ?m = n" using True by simp
  have big: "?m \<ge> 2 ^ 64 \<Longrightarrow> n < - (2 ^ 31)"
  proof -
    assume "?m \<ge> 2 ^ 64"
    then have "int ?m \<ge> 2 ^ 64" by (metis of_nat_le_iff of_nat_numeral of_nat_power)
    then show ?thesis using i by simp
  qed
  show ?thesis
    using True b(1,2) big i by (auto simp: kstrtoint_def k)
next
  case False
  let ?m = "nat n"
  have d: "buf = digits ?m \<or> buf = digits ?m @ [CHR 0x0A]"
    using assms False by (simp add: decimal_def)
  have h: "hd buf = hd (digits ?m)" using d digits_nonempty by auto
  have k: "kstrtoull buf = (if ?m \<ge> 2 ^ 64 then Inl (- ERANGE) else Inr ?m)"
    using d kstrtoull_digits by metis
  have i: "int ?m = n" using False by simp
  have big: "?m \<ge> 2 ^ 64 \<Longrightarrow> n \<ge> 2 ^ 31"
  proof -
    assume "?m \<ge> 2 ^ 64"
    then have "int ?m \<ge> 2 ^ 64" by (metis of_nat_le_iff of_nat_numeral of_nat_power)
    then show ?thesis using i by simp
  qed
  have nn: "0 \<le> n" using False by simp
  show ?thesis
    using nn big by (auto simp: kstrtoint_def k h hd_digits_not_sign)
qed

lemma decimal_examples:
  "decimal 2 = ''2''"
  "decimal 2147483648 = ''2147483648''"
  "decimal (- 3) = ''-3''"
  by (simp_all add: decimal_def digits.simps digit_char_def)

lemma kstrtoint_padded: "kstrtoint ''0000000000000000000007'' = Inr 7"
  by (simp add: kstrtoint_def kstrtoull_def digit_of_def EINVAL_def ERANGE_def)

subsection \<open>Runs used below\<close>

lemmas driver_defs =
  step_def write_sysfs_attribute_def set_gls_frequency_def timer_fires_def
  hr_interval_cb_def lr_interval_cb_def duty_cycle_def gpiod_set_value_def timer_arm_def
  timer_cancel_def int_wrap_def signed_divide_int_def Let_def
  LOGIC_HIGH_def LOGIC_LOW_def US_PER_SEC_def MS_PER_SEC_def hr_config_def lr_config_def

lemma run_low_phase:
  "run lr_config [Store ''freq'' ''1'', Store ''status'' ''1'', Timer, Timer] led0 =
     Inr led0_low"
  by (simp add: driver_defs kstrtoint_examples led0_low_def led0_def)

subsection \<open>Attribute writes\<close>

text \<open>
  A write whose value does not parse, or parses as a negative integer, returns the constant
  \<^verbatim>\<open>EINVAL\<close> and leaves the whole record as it was, whatever the attribute.
\<close>

lemma write_unparsed:
  "kstrtoint buf = Inl rc \<Longrightarrow>
   write_sysfs_attribute cfg gls attribute buf count = (gls, EINVAL)"
  by (simp add: write_sysfs_attribute_def)

lemma write_negative:
  "kstrtoint buf = Inr v \<Longrightarrow> v < 0 \<Longrightarrow>
   write_sysfs_attribute cfg gls attribute buf count = (gls, EINVAL)"
  by (simp add: write_sysfs_attribute_def)

text \<open>
  C5. The write of \<^verbatim>\<open>-1\<close> to \<^verbatim>\<open>on_cycles\<close> leaves the record as it was, but what it
  returns is 22, the constant \<^verbatim>\<open>EINVAL\<close> without a minus sign: for the caller that is not an
  error but 22 bytes consumed, the result of an accepted write of 22 bytes. The same holds
  for a value that is not an integer.
\<close>

theorem write_invalid_returns_byte_count:
  "write_sysfs_attribute hr_config led0 ''on_cycles'' ''-1'' 2 = (led0, 22) \<and>
   \<not> store_failed (snd (write_sysfs_attribute hr_config led0 ''on_cycles'' ''-1'' 2)) \<and>
   length ''0000000000000000000007'' = 22 \<and>
   snd (write_sysfs_attribute hr_config led0 ''on_cycles'' ''-1'' 2) =
     snd (write_sysfs_attribute hr_config led0 ''on_cycles'' ''0000000000000000000007'' 22) \<and>
   write_sysfs_attribute lr_config led0 ''freq'' ''abc'' 3 = (led0, 22) \<and>
   \<not> store_failed (snd (write_sysfs_attribute lr_config led0 ''freq'' ''abc'' 3))"
proof -
  have a: "write_sysfs_attribute hr_config led0 ''on_cycles'' ''-1'' 2 = (led0, 22)"
    using write_negative [of "''-1''" "- 1" hr_config led0 "''on_cycles''" 2]
    by (simp add: kstrtoint_examples EINVAL_def)
  have b: "write_sysfs_attribute lr_config led0 ''freq'' ''abc'' 3 = (led0, 22)"
    using write_unparsed [of "''abc''" "- EINVAL" lr_config led0 "''freq''" 3]
    by (simp add: kstrtoint_examples EINVAL_def)
  have c: "snd (write_sysfs_attribute hr_config led0 ''on_cycles'' ''0000000000000000000007'' 22) = 22"
    by (simp add: write_sysfs_attribute_def kstrtoint_padded)
  show ?thesis by (simp add: a b c store_failed_def)
qed

text \<open>
  C9. A write whose value parses as a non-negative integer is accepted (it returns
  \<^verbatim>\<open>count\<close>) and leaves \<^verbatim>\<open>counter\<close> at 0, whatever the attribute and the value: also
  for \<^verbatim>\<open>freq\<close>, and for a \<^verbatim>\<open>status\<close> value that is neither 0 nor 1.
\<close>

theorem write_accepted_resets_counter:
  "kstrtoint buf = Inr v \<Longrightarrow> 0 \<le> v \<Longrightarrow>
   counter (fst (write_sysfs_attribute cfg gls attribute buf count)) = 0 \<and>
   snd (write_sysfs_attribute cfg gls attribute buf count) = int count"
  by (simp add: write_sysfs_attribute_def set_gls_frequency_fields gpiod_set_value_def
      timer_arm_def timer_cancel_def Let_def)

theorem write_accepted_resets_counter_witness:
  "kstrtoint ''7'' = Inr 7 \<and> (0::int) \<le> 7 \<and>
   counter (fst (write_sysfs_attribute lr_config (led0\<lparr>counter := 5\<rparr>) ''freq'' ''7'' 1)) = 0 \<and>
   snd (write_sysfs_attribute lr_config (led0\<lparr>counter := 5\<rparr>) ''freq'' ''7'' 1) = 1"
proof -
  have p: "kstrtoint ''7'' = Inr 7" by (rule kstrtoint_examples)
  show ?thesis
    using write_accepted_resets_counter
      [of "''7''" 7 lr_config "led0\<lparr>counter := 5\<rparr>" "''freq''" 1] p
    by simp
qed

text \<open>A \<^verbatim>\<open>status\<close> value of 2 or more meets neither case of the \<^verbatim>\<open>switch\<close>.\<close>

lemma status_write_parsed:
  "kstrtoint buf = Inr v \<Longrightarrow> 2 \<le> v \<Longrightarrow>
   write_sysfs_attribute cfg gls ''status'' buf count = (gls\<lparr>counter := 0\<rparr>, int count)"
  by (simp add: write_sysfs_attribute_def LOGIC_LOW_def LOGIC_HIGH_def)

text \<open>
  C3, as the code has it. Let an integer other than 0 and 1 be written to \<^verbatim>\<open>status\<close> as
  decimal text, with or without a final newline. If it lies between 2 and 2147483647 the
  write is accepted: it returns \<^verbatim>\<open>count\<close>, sets \<^verbatim>\<open>counter\<close> to 0 and changes nothing else.
  If it is negative or does not fit an \<^verbatim>\<open>int\<close>, the record is left as it was.
\<close>

theorem status_write_other_integer:
  assumes "n \<noteq> 0" and "n \<noteq> 1"
    and "buf = decimal n \<or> buf = decimal n @ [CHR 0x0A]"
  shows "(2 \<le> n \<and> n < 2 ^ 31 \<longrightarrow>
            write_sysfs_attribute cfg gls ''status'' buf count =
              (gls\<lparr>counter := 0\<rparr>, int count)) \<and>
         (n < 0 \<or> 2 ^ 31 \<le> n \<longrightarrow>
            fst (write_sysfs_attribute cfg gls ''status'' buf count) = gls)"
proof -
  note k = kstrtoint_decimal [OF assms(3)]
  have acc: "write_sysfs_attribute cfg gls ''status'' buf count = (gls\<lparr>counter := 0\<rparr>, int count)"
    if "2 \<le> n" "n < 2 ^ 31"
  proof -
    have "kstrtoint buf = Inr n" using k that by simp
    from status_write_parsed [OF this that(1)] show ?thesis .
  qed
  have rej: "fst (write_sysfs_attribute cfg gls ''status'' buf count) = gls"
    if "n < 0 \<or> 2 ^ 31 \<le> n"
  proof (cases "- (2 ^ 31) \<le> n \<and> n < 2 ^ 31")
    case True
    then have "kstrtoint buf = Inr n" "n < 0" using k that by simp_all
    from write_negative [OF this] show ?thesis by simp
  next
    case False
    then have "kstrtoint buf = Inl (- ERANGE)" using k by simp
    from write_unparsed [OF this] show ?thesis by simp
  qed
  show ?thesis using acc rej by blast
qed

theorem status_write_other_integer_witness:
  "(2::int) \<noteq> 0 \<and> (2::int) \<noteq> 1 \<and> ''2'' = decimal 2 \<and> (2::int) \<le> 2 \<and> (2::int) < 2 ^ 31 \<and>
   write_sysfs_attribute lr_config led0_low ''status'' ''2'' 1 = (led0_low\<lparr>counter := 0\<rparr>, 1) \<and>
   ''2147483648'' = decimal 2147483648 \<and> (2::int) ^ 31 \<le> 2147483648 \<and>
   fst (write_sysfs_attribute lr_config led0_low ''status'' ''2147483648'' 10) = led0_low \<and>
   ''-3'' = decimal (- 3) \<and>
   fst (write_sysfs_attribute lr_config led0_low ''status'' ''-3'' 2) = led0_low"
proof -
  have a: "write_sysfs_attribute lr_config led0_low ''status'' ''2'' 1 =
      (led0_low\<lparr>counter := 0\<rparr>, 1)"
    using status_write_other_integer [of 2 "''2''" lr_config led0_low 1]
    by (simp add: decimal_examples)
  have b: "fst (write_sysfs_attribute lr_config led0_low ''status'' ''2147483648'' 10) = led0_low"
    using status_write_other_integer [of 2147483648 "''2147483648''" lr_config led0_low 10]
    by (simp add: decimal_examples)
  have c: "fst (write_sysfs_attribute lr_config led0_low ''status'' ''-3'' 2) = led0_low"
    using status_write_other_integer [of "- 3" "''-3''" lr_config led0_low 2]
    by (simp add: decimal_examples)
  show ?thesis using a b c by (simp add: decimal_examples)
qed

text \<open>
  C3, as the spec has it, fails: on the line in its LOW phase, with the counter at 2, the
  write of 2 to \<^verbatim>\<open>status\<close> is not answered with \<^verbatim>\<open>EINVAL\<close>; it returns the byte count and
  sets the counter to 0.
\<close>

theorem status_write_two_accepted:
  "run lr_config [Store ''freq'' ''1'', Store ''status'' ''1'', Timer, Timer] led0 =
     Inr led0_low \<and>
   write_sysfs_attribute lr_config led0_low ''status'' ''2'' 1 \<noteq> (led0_low, EINVAL) \<and>
   write_sysfs_attribute lr_config led0_low ''status'' ''2'' 1 = (led0_low\<lparr>counter := 0\<rparr>, 1) \<and>
   counter led0_low = 2"
proof -
  have p: "kstrtoint ''2'' = Inr 2" by (rule kstrtoint_examples)
  have w: "write_sysfs_attribute lr_config led0_low ''status'' ''2'' 1 =
      (led0_low\<lparr>counter := 0\<rparr>, 1)"
    by (simp add: write_sysfs_attribute_def p LOGIC_LOW_def LOGIC_HIGH_def)
  have c: "counter led0_low = 2" by (simp add: led0_low_def)
  have "led0_low\<lparr>counter := 0\<rparr> \<noteq> led0_low"
  proof
    assume "led0_low\<lparr>counter := 0\<rparr> = led0_low"
    then have "counter (led0_low\<lparr>counter := 0\<rparr>) = counter led0_low" by simp
    then show False using c by simp
  qed
  then show ?thesis using w c run_low_phase by simp
qed

subsection \<open>The frequency\<close>

lemma sdiv_pos: "0 < b \<Longrightarrow> 0 \<le> a \<Longrightarrow> (a::int) sdiv b = a div b"
  by (cases "a = 0") (simp_all add: signed_divide_int_def)

text \<open>
  C10. \<^verbatim>\<open>set_gls_frequency\<close> assigns \<^verbatim>\<open>pulse_period\<close> and no other stored field: the
  level, the enabled flag, the counter, the two cycle counts, the name and the reference
  count are as before. On an enabled line it asserts HIGH on the output all the same, so a
  line in its LOW phase keeps the stored level LOW while its output is driven HIGH.
\<close>

theorem set_gls_frequency_frame:
  "pin_logic_level (set_gls_frequency cfg gls freq) = pin_logic_level gls \<and>
   pin_ctl_enabled (set_gls_frequency cfg gls freq) = pin_ctl_enabled gls \<and>
   counter (set_gls_frequency cfg gls freq) = counter gls \<and>
   on_cycles (set_gls_frequency cfg gls freq) = on_cycles gls \<and>
   off_cycles (set_gls_frequency cfg gls freq) = off_cycles gls \<and>
   devname (set_gls_frequency cfg gls freq) = devname gls \<and>
   kref (set_gls_frequency cfg gls freq) = kref gls \<and>
   gpio_value (set_gls_frequency cfg gls freq) =
     (if pin_ctl_enabled gls \<noteq> 0 then LOGIC_HIGH else gpio_value gls)"
  by (simp add: set_gls_frequency_fields)
     (simp add: set_gls_frequency_def gpiod_set_value_def timer_arm_def timer_cancel_def Let_def)

theorem set_gls_frequency_frame_witness:
  "pin_ctl_enabled led0_low \<noteq> 0 \<and> pin_logic_level led0_low = LOGIC_LOW \<and>
   pin_logic_level (set_gls_frequency lr_config led0_low 5) = LOGIC_LOW \<and>
   gpio_value (set_gls_frequency lr_config led0_low 5) = LOGIC_HIGH \<and>
   counter (set_gls_frequency lr_config led0_low 5) = 2"
  using set_gls_frequency_frame [of lr_config led0_low 5]
  by (simp add: led0_low_def led0_def)

text \<open>
  C4, as the spec has it, fails with high-resolution timers: there the function has no
  clamp, and a frequency above 1000000 gives the period 0.
\<close>

theorem set_frequency_hr_zero_period:
  "(0::int) < 2000000 \<and> pulse_period (set_gls_frequency hr_config led0 2000000) = 0"
  by (simp add: set_gls_frequency_def hr_config_def led0_def US_PER_SEC_def
      signed_divide_int_def Let_def)

text \<open>
  C4, as the code has it. With low-resolution timers, and \<^verbatim>\<open>HZ\<close> between 1 and 1000, every
  positive frequency gives a positive period, and a frequency above \<^verbatim>\<open>HZ\<close> gives the
  period of \<^verbatim>\<open>HZ\<close>. With high-resolution timers the period is 1000000 divided by the
  frequency, which is positive exactly for the frequencies up to 1000000.
\<close>

theorem set_gls_frequency_period:
  "0 < freq \<Longrightarrow>
   (\<not> USE_HR_TIMERS cfg \<and> 0 < KERNEL_HERTZ cfg \<and> KERNEL_HERTZ cfg \<le> 1000 \<longrightarrow>
      0 < pulse_period (set_gls_frequency cfg gls freq) \<and>
      (KERNEL_HERTZ cfg < freq \<longrightarrow>
         pulse_period (set_gls_frequency cfg gls freq) =
         pulse_period (set_gls_frequency cfg gls (KERNEL_HERTZ cfg)))) \<and>
   (USE_HR_TIMERS cfg \<longrightarrow>
      pulse_period (set_gls_frequency cfg gls freq) = US_PER_SEC div freq \<and>
      (0 < pulse_period (set_gls_frequency cfg gls freq) \<longleftrightarrow> freq \<le> US_PER_SEC))"
proof -
  assume f: "0 < freq"
  have pp: "pulse_period (set_gls_frequency cfg gls g) =
      (let h = (if \<not> USE_HR_TIMERS cfg \<and> g > KERNEL_HERTZ cfg then KERNEL_HERTZ cfg else g)
       in if h > 0 then (if USE_HR_TIMERS cfg then US_PER_SEC else MS_PER_SEC) sdiv h else 0)" for g
    by (simp add: set_gls_frequency_def gpiod_set_value_def timer_arm_def timer_cancel_def Let_def)
  have hr: "USE_HR_TIMERS cfg \<Longrightarrow> pulse_period (set_gls_frequency cfg gls freq) = US_PER_SEC div freq"
    using f by (simp add: pp sdiv_pos US_PER_SEC_def)
  have hrpos: "(0 < US_PER_SEC div freq) = (freq \<le> US_PER_SEC)"
    using f by (simp add: pos_imp_zdiv_pos_iff)
  have lr: "0 < pulse_period (set_gls_frequency cfg gls freq)"
    if a: "\<not> USE_HR_TIMERS cfg" "0 < KERNEL_HERTZ cfg" "KERNEL_HERTZ cfg \<le> 1000"
  proof -
    define h where "h = (if freq > KERNEL_HERTZ cfg then KERNEL_HERTZ cfg else freq)"
    have h: "0 < h" "h \<le> 1000" using a f by (auto simp: h_def)
    have "pulse_period (set_gls_frequency cfg gls freq) = 1000 div h"
      using a h by (simp add: pp h_def sdiv_pos MS_PER_SEC_def)
    moreover have "0 < (1000::int) div h" using h by (simp add: pos_imp_zdiv_pos_iff)
    ultimately show ?thesis by simp
  qed
  have clamp: "pulse_period (set_gls_frequency cfg gls freq) =
         pulse_period (set_gls_frequency cfg gls (KERNEL_HERTZ cfg))"
    if "\<not> USE_HR_TIMERS cfg" "KERNEL_HERTZ cfg < freq"
    using that by (simp add: pp)
  show ?thesis using hr hrpos lr clamp by auto
qed

theorem set_gls_frequency_period_witness:
  "(0::int) < 5000 \<and> \<not> USE_HR_TIMERS lr_config \<and> 0 < KERNEL_HERTZ lr_config \<and>
   KERNEL_HERTZ lr_config \<le> 1000 \<and> KERNEL_HERTZ lr_config < 5000 \<and> USE_HR_TIMERS hr_config \<and>
   pulse_period (set_gls_frequency lr_config led0 5000) = 4 \<and>
   pulse_period (set_gls_frequency lr_config led0 (KERNEL_HERTZ lr_config)) = 4 \<and>
   pulse_period (set_gls_frequency hr_config led0 5000) = 200"
proof -
  have a: "pulse_period (set_gls_frequency lr_config led0 (KERNEL_HERTZ lr_config)) = 4"
    by (simp add: set_gls_frequency_def lr_config_def led0_def MS_PER_SEC_def
      signed_divide_int_def Let_def)
  have c: "\<not> USE_HR_TIMERS lr_config \<and> 0 < KERNEL_HERTZ lr_config \<and>
   KERNEL_HERTZ lr_config \<le> 1000 \<and> KERNEL_HERTZ lr_config < 5000 \<and> USE_HR_TIMERS hr_config"
    by (simp add: lr_config_def hr_config_def)
  have f: "(0::int) < 5000" by simp
  show ?thesis
    using set_gls_frequency_period [OF f, of lr_config led0]
      set_gls_frequency_period [OF f, of hr_config led0] a c
    by (simp add: US_PER_SEC_def)
qed

subsection \<open>Reading the frequency\<close>

text \<open>
  C7. On a line as \<^verbatim>\<open>initialize_gls\<close> leaves it, \<^verbatim>\<open>pulse_period\<close> is 0 and reading
  \<^verbatim>\<open>freq\<close> divides by it, in both configurations.
\<close>

theorem read_freq_fresh_line_divides_by_zero:
  "initialize_gls hr_config ''led0'' 0 = Inr led0 \<and>
   read_sysfs_attribute hr_config led0 ''freq'' = Inl DivideError \<and>
   initialize_gls lr_config ''led0'' 0 = Inr led0 \<and>
   read_sysfs_attribute lr_config led0 ''freq'' = Inl DivideError"
  by (simp add: initialize_led0) (simp add: read_sysfs_attribute_def led0_def)

subsection \<open>The duty cycle\<close>

text \<open>
  C2. The assertion of the LOW branch can be reached through attribute writes and timer
  expiries alone: enable the line, let it enter its LOW phase, write \<^verbatim>\<open>off_cycles=0\<close>; the
  next expiry finds the level LOW with no off cycles and stops at \<^verbatim>\<open>BUG_ON\<close>.
\<close>

theorem bug_on_reachable:
  "run lr_config [Store ''freq'' ''1'', Store ''status'' ''1'', Timer, Timer,
                  Store ''off_cycles'' ''0''] led0 =
     Inr (led0_low\<lparr>counter := 0, off_cycles := 0\<rparr>) \<and>
   run lr_config [Store ''freq'' ''1'', Store ''status'' ''1'', Timer, Timer,
                  Store ''off_cycles'' ''0'', Timer] led0 = Inl BUG \<and>
   run hr_config [Store ''freq'' ''1'', Store ''status'' ''1'', Timer, Timer,
                  Store ''off_cycles'' ''0'', Timer] led0 = Inl BUG"
  by (simp add: driver_defs kstrtoint_examples led0_low_def led0_def)

text \<open>
  C1. With \<^verbatim>\<open>on_cycles=0\<close> and \<^verbatim>\<open>off_cycles=1\<close> the line is LOW at the first expiry after
  it was enabled and HIGH at every later one: when the LOW phase ends the counter is set to
  1, and counting upwards it does not meet \<^verbatim>\<open>on_cycles = 0\<close> again.
\<close>

theorem on_cycles_zero_sticks_high:
  "levels_after hr_config [Store ''on_cycles'' ''0'', Store ''freq'' ''1'', Store ''status'' ''1'']
     6 led0 = Inr [0, 1, 1, 1, 1, 1] \<and>
   levels_after lr_config [Store ''on_cycles'' ''0'', Store ''freq'' ''1'', Store ''status'' ''1'']
     6 led0 = Inr [0, 1, 1, 1, 1, 1]"
  by (simp add: levels_after_def eval_nat_numeral driver_defs kstrtoint_examples led0_def)

lemma int_wrap_id: "- (2 ^ 31) \<le> x \<Longrightarrow> x < 2 ^ 31 \<Longrightarrow> int_wrap x = x"
  by (simp add: int_wrap_def)

lemma timer_fires_enabled:
  "timer_pending gls \<Longrightarrow> pin_ctl_enabled gls \<noteq> 0 \<Longrightarrow>
   timer_fires cfg gls =
     (case duty_cycle gls of
        Inl f \<Rightarrow> Inl f
      | Inr d \<Rightarrow>
          Inr (d\<lparr>timer_pending := True, gpio_value := pin_logic_level d,
                 trace := trace gls @
                   (if USE_HR_TIMERS cfg
                    then [GpioSetValue (pin_logic_level d), TimerArm (pulse_period gls)]
                    else [TimerArm (pulse_period gls), GpioSetValue (pin_logic_level d)])\<rparr>))"
  by (simp add: timer_fires_def hr_interval_cb_def lr_interval_cb_def duty_cycle_def
      gpiod_set_value_def timer_arm_def Let_def)

lemma in_cycle_step:
  assumes "in_cycle a b j gls" and "1 \<le> a" and "0 < b" and "a + b < 2 ^ 31 - 1"
    and "- 1 \<le> j" and "j < a + b"
  shows "\<exists>g. timer_fires cfg gls = Inr g \<and> in_cycle a b ((j + 1) mod (a + b)) g \<and>
             gpio_value g = (if (j + 1) mod (a + b) < a then LOGIC_HIGH else LOGIC_LOW)"
proof -
  have f: "pin_ctl_enabled gls \<noteq> 0" "timer_pending gls" "on_cycles gls = a"
    "off_cycles gls = b" "counter gls = j + 1"
    "pin_logic_level gls = (if j < a then LOGIC_HIGH else LOGIC_LOW)"
    using assms(1) by (simp_all add: in_cycle_def)
  have m: "(j + 1) mod (a + b) = (if j + 1 = a + b then 0 else j + 1)"
    using assms by simp
  have d: "duty_cycle gls =
      Inr (gls\<lparr>counter := (if j + 1 = a + b then 1 else j + 2),
               pin_logic_level := (if j + 1 = a + b then LOGIC_HIGH
                                   else if j + 1 < a then LOGIC_HIGH else LOGIC_LOW)\<rparr>)"
    using assms(2-6) f(3-6)
    by (cases gls)
       (simp add: duty_cycle_def int_wrap_id Let_def LOGIC_HIGH_def LOGIC_LOW_def)
  show ?thesis
    using assms(2-6) f(1,2,3,4) m
    by (simp add: timer_fires_enabled d in_cycle_def)
qed

lemma always_on_step:
  assumes "always_on a gls" and "1 \<le> a" and "a < 2 ^ 31 - 1"
  shows "\<exists>g. timer_fires cfg gls = Inr g \<and> always_on a g \<and> gpio_value g = LOGIC_HIGH"
proof -
  have f: "pin_ctl_enabled gls \<noteq> 0" "timer_pending gls" "on_cycles gls = a"
    "off_cycles gls = 0" "0 \<le> counter gls" "counter gls \<le> a" "pin_logic_level gls = LOGIC_HIGH"
    using assms(1) by (simp_all add: always_on_def)
  have d: "duty_cycle gls = Inr (gls\<lparr>counter := (if counter gls = a then 0 else counter gls + 1)\<rparr>)"
    using assms(2,3) f(3-7)
    by (cases gls) (simp add: duty_cycle_def int_wrap_id Let_def LOGIC_HIGH_def LOGIC_LOW_def)
  show ?thesis using assms(2,3) f by (simp add: timer_fires_enabled d always_on_def)
qed

lemma levels_in_cycle:
  assumes "1 \<le> a" and "0 < b" and "a + b < 2 ^ 31 - 1"
  shows "in_cycle a b j gls \<Longrightarrow> - 1 \<le> j \<Longrightarrow> j < a + b \<Longrightarrow>
         levels cfg n gls =
           Inr (map (\<lambda>k. if (j + 1 + int k) mod (a + b) < a then LOGIC_HIGH else LOGIC_LOW)
                  [0..<n])"
proof (induction n arbitrary: gls j)
  case 0
  show ?case by simp
next
  case (Suc n)
  let ?j = "(j + 1) mod (a + b)"
  from in_cycle_step [OF Suc.prems(1) assms Suc.prems(2,3), of cfg] obtain g
    where g: "timer_fires cfg gls = Inr g" "in_cycle a b ?j g"
      "gpio_value g = (if ?j < a then LOGIC_HIGH else LOGIC_LOW)"
    by blast
  have r: "0 \<le> ?j" "?j < a + b" using assms by simp_all
  then have "- 1 \<le> ?j" by simp
  from Suc.IH [OF g(2) this r(2)]
  have ih: "levels cfg n g =
      Inr (map (\<lambda>k. if (?j + 1 + int k) mod (a + b) < a then LOGIC_HIGH else LOGIC_LOW) [0..<n])" .
  have e: "(?j + 1 + int k) mod (a + b) = (j + 1 + int (Suc k)) mod (a + b)" for k
  proof -
    have "(?j + (1 + int k)) mod (a + b) = (j + 1 + (1 + int k)) mod (a + b)"
      by (rule mod_add_left_eq)
    then show ?thesis by (simp add: add.assoc)
  qed
  show ?case
    using g(1,3) ih by (simp add: map_upt_Suc e del: upt_Suc)
qed

lemma levels_always_on:
  assumes "1 \<le> a" and "a < 2 ^ 31 - 1"
  shows "always_on a gls \<Longrightarrow> levels cfg n gls = Inr (map (\<lambda>k. LOGIC_HIGH) [0..<n])"
proof (induction n arbitrary: gls)
  case 0
  show ?case by simp
next
  case (Suc n)
  from always_on_step [OF Suc.prems assms, of cfg] obtain g
    where g: "timer_fires cfg gls = Inr g" "always_on a g" "gpio_value g = LOGIC_HIGH"
    by blast
  show ?case using g(1,3) Suc.IH [OF g(2)] by (simp add: map_upt_Suc del: upt_Suc)
qed

text \<open>
  With at least one on cycle the cycle is as the comment in \<^verbatim>\<open>hr_interval_cb\<close> describes it.
  From an enabled line with an armed timer, the level HIGH and the counter 0 (the state after
  \<^verbatim>\<open>status=1\<close>), and as long as \<^verbatim>\<open>on_cycles + off_cycles\<close> stays below the largest
  \<^verbatim>\<open>int\<close>, the level after expiry \<open>k + 1\<close> is HIGH exactly when \<open>k\<close> modulo the period
  is below \<^verbatim>\<open>on_cycles\<close>: \<^verbatim>\<open>on_cycles\<close> expiries HIGH, then \<^verbatim>\<open>off_cycles\<close> expiries LOW,
  for ever, in both configurations.
\<close>

theorem duty_cycle_periodic:
  assumes "pin_ctl_enabled gls \<noteq> 0" and "timer_pending gls"
    and "pin_logic_level gls = LOGIC_HIGH" and "counter gls = 0"
    and "1 \<le> on_cycles gls" and "0 \<le> off_cycles gls"
    and "on_cycles gls + off_cycles gls < 2 ^ 31 - 1"
  shows "levels cfg n gls =
           Inr (map (\<lambda>k. if int k mod (on_cycles gls + off_cycles gls) < on_cycles gls
                          then LOGIC_HIGH else LOGIC_LOW) [0..<n])"
proof (cases "off_cycles gls = 0")
  case True
  have "always_on (on_cycles gls) gls"
    using assms True by (simp add: always_on_def)
  from levels_always_on [OF assms(5) _ this, of cfg n] assms(7) True
  have "levels cfg n gls = Inr (map (\<lambda>k. LOGIC_HIGH) [0..<n])" by simp
  moreover have "int k mod on_cycles gls < on_cycles gls" for k
    using assms(5) by simp
  ultimately show ?thesis using True by simp
next
  case False
  then have b: "0 < off_cycles gls" using assms(6) by simp
  have "in_cycle (on_cycles gls) (off_cycles gls) (- 1) gls"
    using assms by (simp add: in_cycle_def)
  from levels_in_cycle [OF assms(5) b assms(7) this, of cfg n] assms(5) b
  show ?thesis by simp
qed

theorem duty_cycle_periodic_witness:
  "levels lr_config 7 (led0_on\<lparr>timer_pending := True, on_cycles := 2, off_cycles := 1\<rparr>) =
     Inr [1, 1, 0, 1, 1, 0, 1]"
proof -
  let ?s = "led0_on\<lparr>timer_pending := True, on_cycles := 2, off_cycles := 1\<rparr>"
  have "pin_ctl_enabled ?s \<noteq> 0" "timer_pending ?s" "pin_logic_level ?s = LOGIC_HIGH"
    "counter ?s = 0" "1 \<le> on_cycles ?s" "0 \<le> off_cycles ?s"
    "on_cycles ?s + off_cycles ?s < 2 ^ 31 - 1"
    by (simp_all add: led0_on_def led0_def)
  from duty_cycle_periodic [OF this, of lr_config 7]
  show ?thesis by (simp add: upt_rec LOGIC_HIGH_def LOGIC_LOW_def del: levels.simps)
qed

subsection \<open>The order of the effects of an expiry\<close>

lemma duty_cycle_returns:
  "\<not> (pin_logic_level gls = LOGIC_LOW \<and> off_cycles gls = 0) \<Longrightarrow>
   \<exists>g. duty_cycle gls = Inr g \<and> trace g = trace gls \<and> pulse_period g = pulse_period gls"
  by (auto simp: duty_cycle_def Let_def)

text \<open>
  C6, as the code has it. On an enabled line, unless the assertion of the LOW branch fails,
  an expiry both applies the new level and arms the timer again. The high-resolution
  callback applies the level first; the low-resolution callback arms the timer first.
\<close>

theorem tick_effect_order:
  assumes "pin_ctl_enabled gls \<noteq> 0"
    and "\<not> (pin_logic_level gls = LOGIC_LOW \<and> off_cycles gls = 0)"
  shows "(\<exists>g. hr_interval_cb gls = Inr (g, HRTIMER_RESTART) \<and>
              trace g = trace gls @ [GpioSetValue (pin_logic_level g), TimerArm (pulse_period gls)]) \<and>
         (\<exists>g. lr_interval_cb gls = Inr g \<and>
              trace g = trace gls @ [TimerArm (pulse_period gls), GpioSetValue (pin_logic_level g)])"
proof
  from duty_cycle_returns [OF assms(2)] obtain g1
    where g1: "duty_cycle gls = Inr g1" "trace g1 = trace gls" "pulse_period g1 = pulse_period gls"
    by blast
  show "\<exists>g. hr_interval_cb gls = Inr (g, HRTIMER_RESTART) \<and>
      trace g = trace gls @ [GpioSetValue (pin_logic_level g), TimerArm (pulse_period gls)]"
    using assms(1) g1 by (simp add: hr_interval_cb_def gpiod_set_value_def timer_arm_def Let_def)
next
  let ?a = "timer_arm gls (pulse_period gls)"
  have "\<not> (pin_logic_level ?a = LOGIC_LOW \<and> off_cycles ?a = 0)"
    using assms(2) by (simp add: timer_arm_def)
  from duty_cycle_returns [OF this] obtain g2
    where g2: "duty_cycle ?a = Inr g2" "trace g2 = trace ?a"
    by blast
  show "\<exists>g. lr_interval_cb gls = Inr g \<and>
      trace g = trace gls @ [TimerArm (pulse_period gls), GpioSetValue (pin_logic_level g)]"
    using assms(1) g2 by (simp add: lr_interval_cb_def gpiod_set_value_def timer_arm_def Let_def)
qed

theorem tick_effect_order_witness:
  "pin_ctl_enabled led0_on \<noteq> 0 \<and>
   \<not> (pin_logic_level led0_on = LOGIC_LOW \<and> off_cycles led0_on = 0) \<and>
   (\<exists>g. hr_interval_cb led0_on = Inr (g, HRTIMER_RESTART) \<and>
        trace g = trace led0_on @ [GpioSetValue (pin_logic_level g), TimerArm (pulse_period led0_on)]) \<and>
   (\<exists>g. lr_interval_cb led0_on = Inr g \<and>
        trace g = trace led0_on @ [TimerArm (pulse_period led0_on), GpioSetValue (pin_logic_level g)])"
proof -
  have a: "pin_ctl_enabled led0_on \<noteq> 0"
    by (simp add: led0_on_def led0_def)
  have b: "\<not> (pin_logic_level led0_on = LOGIC_LOW \<and> off_cycles led0_on = 0)"
    by (simp add: led0_on_def led0_def)
  show ?thesis using tick_effect_order [OF a b] a b by blast
qed

text \<open>
  C6, as the spec has it, fails on the low-resolution path: \<^verbatim>\<open>lr_interval_cb\<close> calls
  \<^verbatim>\<open>mod_timer\<close> before it calls \<^verbatim>\<open>gpiod_set_value\<close>.
\<close>

theorem lr_tick_arms_before_level:
  "map_sum id trace (lr_interval_cb led0_on) = Inr [TimerArm 1000, GpioSetValue 1] \<and>
   map_sum id trace (lr_interval_cb led0_on) \<noteq> Inr [GpioSetValue 1, TimerArm 1000]"
  by (simp add: led0_on_def led0_def driver_defs)

subsection \<open>Teardown\<close>

lemma kobject_puts_live:
  "\<not> freed gls \<Longrightarrow> kref gls = Suc k + m \<Longrightarrow>
   kobject_puts cfg m gls = Inr (gls\<lparr>kref := Suc k\<rparr>)"
proof (induction m arbitrary: gls)
  case 0
  then show ?case by simp
next
  case (Suc m)
  have "kobject_put cfg gls = Inr (gls\<lparr>kref := Suc k + m\<rparr>)"
    using Suc.prems by (simp add: kobject_put_def Let_def)
  moreover have "kobject_puts cfg m (gls\<lparr>kref := Suc k + m\<rparr>) = Inr (gls\<lparr>kref := Suc k\<rparr>)"
    using Suc.IH [of "gls\<lparr>kref := Suc k + m\<rparr>"] Suc.prems by simp
  ultimately show ?case by simp
qed

lemma kobject_puts_add:
  "kobject_puts cfg m gls = Inr g \<Longrightarrow> kobject_puts cfg (m + n) gls = kobject_puts cfg n g"
  by (induction m arbitrary: gls) (auto split: sum.splits)

text \<open>
  C8. On a live record with \<open>n + 1\<close> references, each of the first \<open>n\<close> puts only
  decrements the count. The last put cancels the timer, sets the output LOW, releases the
  descriptor, unlinks the record and frees it, in this order and once; a further put finds
  the record freed. \<^verbatim>\<open>rm_func\<close> is one put.
\<close>

theorem release_at_last_put:
  assumes "\<not> freed gls" and "kref gls = Suc n"
  shows "(\<forall>m\<le>n. kobject_puts cfg m gls = Inr (gls\<lparr>kref := Suc n - m\<rparr>)) \<and>
         kobject_puts cfg (Suc n) gls =
           Inr (gls\<lparr>kref := 0, timer_pending := False, gpio_value := LOGIC_LOW,
                    gpio_held := False, on_list := False, freed := True,
                    trace := trace gls @
                      [TimerCancel, GpioSetValue LOGIC_LOW, GpioPut, ListDel, Kfree]\<rparr>) \<and>
         kobject_puts cfg (Suc (Suc n)) gls = Inl UseAfterFree \<and>
         rm_func cfg gls = kobject_puts cfg 1 gls"
proof -
  have live: "kobject_puts cfg m gls = Inr (gls\<lparr>kref := Suc n - m\<rparr>)" if "m \<le> n" for m
  proof -
    have "kref gls = Suc (n - m) + m" using that assms(2) by simp
    from kobject_puts_live [OF assms(1) this, of cfg] that show ?thesis
      by (simp add: Suc_diff_le)
  qed
  have n: "kobject_puts cfg n gls = Inr (gls\<lparr>kref := Suc 0\<rparr>)"
    using live [of n] by simp
  let ?d = "gls\<lparr>kref := 0, timer_pending := False, gpio_value := LOGIC_LOW,
                    gpio_held := False, on_list := False, freed := True,
                    trace := trace gls @
                      [TimerCancel, GpioSetValue LOGIC_LOW, GpioPut, ListDel, Kfree]\<rparr>"
  have last: "kobject_put cfg (gls\<lparr>kref := Suc 0\<rparr>) = Inr ?d"
    using assms(1)
    by (simp add: kobject_put_def gpio_line_state_release_func_def timer_cancel_def
        gpiod_set_value_def Let_def)
  have dead: "kobject_put cfg ?d = Inl UseAfterFree"
    by (simp add: kobject_put_def)
  have s1: "kobject_puts cfg (Suc n) gls = Inr ?d"
    using kobject_puts_add [OF n, of 1] last by simp
  have s2: "kobject_puts cfg (Suc (Suc n)) gls = Inl UseAfterFree"
    using kobject_puts_add [OF n, of 2] last dead by (simp add: numeral_2_eq_2)
  have rm: "rm_func cfg gls = kobject_puts cfg 1 gls"
    by (simp add: rm_func_def split: sum.splits)
  show ?thesis using live s1 s2 rm by blast
qed

theorem release_at_last_put_witness:
  "\<not> freed (led0\<lparr>kref := 3\<rparr>) \<and> kref (led0\<lparr>kref := 3\<rparr>) = Suc 2 \<and>
   kobject_puts hr_config 1 (led0\<lparr>kref := 3\<rparr>) = Inr (led0\<lparr>kref := 2\<rparr>) \<and>
   kobject_puts hr_config 2 (led0\<lparr>kref := 3\<rparr>) = Inr (led0\<lparr>kref := 1\<rparr>) \<and>
   map_sum id trace (kobject_puts hr_config (Suc 2) (led0\<lparr>kref := 3\<rparr>)) =
     Inr [TimerCancel, GpioSetValue LOGIC_LOW, GpioPut, ListDel, Kfree] \<and>
   kobject_puts hr_config (Suc (Suc 2)) (led0\<lparr>kref := 3\<rparr>) = Inl UseAfterFree"
proof -
  have a: "\<not> freed (led0\<lparr>kref := 3\<rparr>)" by (simp add: led0_def)
  have b: "kref (led0\<lparr>kref := 3\<rparr>) = Suc 2" by simp
  note r = release_at_last_put [OF a b, of hr_config]
  note live = r [THEN conjunct1, rule_format]
  have m1: "kobject_puts hr_config 1 (led0\<lparr>kref := 3\<rparr>) = Inr (led0\<lparr>kref := 2\<rparr>)"
    using live [of 1] by (simp del: kobject_puts.simps)
  have m2: "kobject_puts hr_config 2 (led0\<lparr>kref := 3\<rparr>) = Inr (led0\<lparr>kref := 1\<rparr>)"
    using live [of 2] by (simp del: kobject_puts.simps)
  have t: "trace led0 = []" by (simp add: led0_def)
  have m3: "map_sum id trace (kobject_puts hr_config (Suc 2) (led0\<lparr>kref := 3\<rparr>)) =
     Inr [TimerCancel, GpioSetValue LOGIC_LOW, GpioPut, ListDel, Kfree]"
    using r [THEN conjunct2, THEN conjunct1] t by (simp del: kobject_puts.simps)
  have m4: "kobject_puts hr_config (Suc (Suc 2)) (led0\<lparr>kref := 3\<rparr>) = Inl UseAfterFree"
    using r [THEN conjunct2, THEN conjunct2, THEN conjunct1] .
  show ?thesis using a b m1 m2 m3 m4 by (simp del: kobject_puts.simps)
qed

end
